theory Spec2Isabelle
  imports Main
begin

section \<open>Python strings and exceptions\<close>

text \<open>
  A Python \<open>str\<close> is a sequence of Unicode code points; it is modelled as a list of
  natural numbers, and \<open>py ''abc''\<close> is the string of an ASCII literal. Every exception
  the modelled code can raise is a value of \<open>exn\<close>; a computation that may raise
  returns \<open>exn + 'a\<close>, with \<open>Inl\<close> for the exception.
\<close>

datatype exn = ValueError | IndexError | NameError | TypeError | AttributeError | UserError nat

definition ebind :: "exn + 'a \<Rightarrow> ('a \<Rightarrow> exn + 'b) \<Rightarrow> exn + 'b" where
  "ebind m f = (case m of Inl e \<Rightarrow> Inl e | Inr x \<Rightarrow> f x)"

text \<open>A list comprehension whose element expression may raise: the elements are
  evaluated from left to right and the first exception leaves the comprehension.\<close>

fun emap :: "('a \<Rightarrow> exn + 'b) \<Rightarrow> 'a list \<Rightarrow> exn + 'b list" where
  "emap f [] = Inr []"
| "emap f (x # xs) =
     (case f x of
        Inl e \<Rightarrow> Inl e
      | Inr y \<Rightarrow> (case emap f xs of Inl e \<Rightarrow> Inl e | Inr ys \<Rightarrow> Inr (y # ys)))"

type_synonym pystr = "nat list"

definition cp :: "char \<Rightarrow> nat" where
  "cp c = of_char c"

definition py :: "string \<Rightarrow> pystr" where
  "py s = map cp s"

definition TAB :: nat where "TAB = 9"
definition NL :: nat where "NL = 10"
definition SP :: nat where "SP = 32"

text \<open>\<open>s.split(sep)\<close> for a non-empty separator: the occurrences of \<open>sep\<close> are found
  from the left and do not overlap; the pieces between them are returned, so the result
  is never empty. (Python raises ValueError for an empty separator; the source only
  splits on the literals "\n", "\n\n", "=" and "|".)\<close>

fun split_from :: "pystr \<Rightarrow> pystr \<Rightarrow> pystr \<Rightarrow> pystr list" where
  "split_from sep cur [] = [cur]"
| "split_from sep cur (c # cs) =
     (if sep \<noteq> [] \<and> take (length sep) (c # cs) = sep
      then cur # split_from sep [] (drop (length sep - 1) cs)
      else split_from sep (cur @ [c]) cs)"

definition py_split :: "pystr \<Rightarrow> pystr \<Rightarrow> pystr list" where
  "py_split s sep = split_from sep [] s"

text \<open>\<open>sep.join(xs)\<close>.\<close>

fun py_join :: "pystr \<Rightarrow> pystr list \<Rightarrow> pystr" where
  "py_join sep [] = []"
| "py_join sep [x] = x"
| "py_join sep (x # y # ys) = x @ sep @ py_join sep (y # ys)"

text \<open>\<open>xs[i]\<close> for a non-negative literal index.\<close>

definition py_index :: "'a list \<Rightarrow> nat \<Rightarrow> exn + 'a" where
  "py_index xs i = (if i < length xs then Inr (xs ! i) else Inl IndexError)"

definition startswith :: "pystr \<Rightarrow> pystr \<Rightarrow> bool" where
  "startswith s p = (take (length p) s = p)"

subsection \<open>What the Python runtime supplies\<close>

text \<open>
  \<open>str.isdigit\<close>, \<open>int\<close> and \<open>str.strip\<close> read the Unicode character database of
  the running interpreter, and \<open>int\<close> also obeys the interpreter's limit on the length
  of a decimal string. Neither is part of the notebook, and both differ between Python
  versions, so they are a parameter \<open>rt\<close> of the model:
  \<^item> \<open>rt_decimal rt c\<close> is the decimal digit value of a code point \<open>c\<close> above ASCII
    (Numeric_Type=Decimal), if it has one;
  \<^item> \<open>rt_digit rt c\<close> says that a code point above ASCII is a digit without a decimal
    value (Numeric_Type=Digit, such as the superscript two);
  \<^item> \<open>rt_space rt c\<close> says that a code point above ASCII is whitespace;
  \<^item> \<open>rt_max_str_digits rt\<close> is \<open>sys.get_int_max_str_digits()\<close>: 0 when there is no
    limit (as in the notebook's Python 3.6), otherwise at least 640 (4300 by default in
    Python 3.11).
  On ASCII the three character classes are the same in every version and are written
  out: the digits are 0 to 9, the whitespace is U+0009 to U+000D and U+001C to U+0020.
\<close>

datatype runtime =
  Runtime (rt_decimal: "nat \<Rightarrow> nat option") (rt_digit: "nat \<Rightarrow> bool")
    (rt_space: "nat \<Rightarrow> bool") (rt_max_str_digits: nat)

definition decimal_value :: "runtime \<Rightarrow> nat \<Rightarrow> nat option" where
  "decimal_value rt c =
     (if 48 \<le> c \<and> c \<le> 57 then Some (c - 48)
      else if c < 128 then None
      else rt_decimal rt c)"

definition is_digit :: "runtime \<Rightarrow> nat \<Rightarrow> bool" where
  "is_digit rt c = (decimal_value rt c \<noteq> None \<or> (128 \<le> c \<and> rt_digit rt c))"

definition is_space :: "runtime \<Rightarrow> nat \<Rightarrow> bool" where
  "is_space rt c = ((9 \<le> c \<and> c \<le> 13) \<or> (28 \<le> c \<and> c \<le> 32) \<or> (128 \<le> c \<and> rt_space rt c))"

text \<open>\<open>str.isdigit()\<close>: the string is non-empty and every character is a digit.\<close>

definition py_isdigit :: "runtime \<Rightarrow> pystr \<Rightarrow> bool" where
  "py_isdigit rt s = (s \<noteq> [] \<and> list_all (is_digit rt) s)"

text \<open>\<open>int(s)\<close> on a string without sign, whitespace or underscore (\<open>parse_int_value\<close>
  only passes strings for which \<open>isdigit\<close> holds): the value of the decimal numeral when
  every character has a decimal digit value and the string is not longer than the limit,
  ValueError otherwise. A digit without a decimal value is rejected, and so is a string
  of more than \<open>max_str_digits\<close> digits, leading zeros counted.\<close>

definition int_limit_ok :: "runtime \<Rightarrow> nat \<Rightarrow> bool" where
  "int_limit_ok rt n = (rt_max_str_digits rt = 0 \<or> n \<le> max 640 (rt_max_str_digits rt))"

definition py_int :: "runtime \<Rightarrow> pystr \<Rightarrow> exn + int" where
  "py_int rt s =
     (if s \<noteq> [] \<and> list_all (\<lambda>c. decimal_value rt c \<noteq> None) s \<and> int_limit_ok rt (length s)
      then Inr (foldl (\<lambda>acc c. 10 * acc + int (the (decimal_value rt c))) 0 s)
      else Inl ValueError)"

text \<open>\<open>str.strip()\<close> removes leading and trailing whitespace.\<close>

definition py_strip :: "runtime \<Rightarrow> pystr \<Rightarrow> pystr" where
  "py_strip rt s = rev (dropWhile (is_space rt) (rev (dropWhile (is_space rt) s)))"

text \<open>The runtime of the concrete runs below is CPython 3.11 with its default limit of
  4300 digits and Unicode 14.0.0. The decimal digits above ASCII come in runs of ten
  consecutive code points with the values 0 to 9; \<open>decimal_zeros\<close> lists the first code
  point of each run. \<open>other_digits\<close> are the ranges of the digits without a decimal
  value, \<open>other_spaces\<close> those of the whitespace above ASCII.\<close>

definition decimal_zeros :: "nat list" where
  "decimal_zeros = [
     0x660, 0x6F0, 0x7C0, 0x966, 0x9E6, 0xA66, 0xAE6, 0xB66,
     0xBE6, 0xC66, 0xCE6, 0xD66, 0xDE6, 0xE50, 0xED0, 0xF20,
     0x1040, 0x1090, 0x17E0, 0x1810, 0x1946, 0x19D0, 0x1A80, 0x1A90,
     0x1B50, 0x1BB0, 0x1C40, 0x1C50, 0xA620, 0xA8D0, 0xA900, 0xA9D0,
     0xA9F0, 0xAA50, 0xABF0, 0xFF10, 0x104A0, 0x10D30, 0x11066, 0x110F0,
     0x11136, 0x111D0, 0x112F0, 0x11450, 0x114D0, 0x11650, 0x116C0, 0x11730,
     0x118E0, 0x11950, 0x11C50, 0x11D50, 0x11DA0, 0x16A60, 0x16AC0, 0x16B50,
     0x1D7CE, 0x1D7D8, 0x1D7E2, 0x1D7EC, 0x1D7F6, 0x1E140, 0x1E2F0, 0x1E950,
     0x1FBF0]"

definition other_digits :: "(nat \<times> nat) list" where
  "other_digits = [
     (0xB2, 0xB3), (0xB9, 0xB9), (0x1369, 0x1371), (0x19DA, 0x19DA),
     (0x2070, 0x2070), (0x2074, 0x2079), (0x2080, 0x2089), (0x2460, 0x2468),
     (0x2474, 0x247C), (0x2488, 0x2490), (0x24EA, 0x24EA), (0x24F5, 0x24FD),
     (0x24FF, 0x24FF), (0x2776, 0x277E), (0x2780, 0x2788), (0x278A, 0x2792),
     (0x10A40, 0x10A43), (0x10E60, 0x10E68), (0x11052, 0x1105A), (0x1F100, 0x1F10A)]"

definition other_spaces :: "(nat \<times> nat) list" where
  "other_spaces = [
     (0x85, 0x85), (0xA0, 0xA0), (0x1680, 0x1680), (0x2000, 0x200A),
     (0x2028, 0x2029), (0x202F, 0x202F), (0x205F, 0x205F), (0x3000, 0x3000)]"

definition in_ranges :: "(nat \<times> nat) list \<Rightarrow> nat \<Rightarrow> bool" where
  "in_ranges rs c = list_ex (\<lambda>(lo, hi). lo \<le> c \<and> c \<le> hi) rs"

definition py311_decimal :: "nat \<Rightarrow> nat option" where
  "py311_decimal c =
     (case find (\<lambda>z. z \<le> c \<and> c \<le> z + 9) decimal_zeros of
        None \<Rightarrow> None
      | Some z \<Rightarrow> Some (c - z))"

definition py311_digit :: "nat \<Rightarrow> bool" where
  "py311_digit c = in_ranges other_digits c"

definition py311_space :: "nat \<Rightarrow> bool" where
  "py311_space c = in_ranges other_spaces c"

definition python311 :: runtime where
  "python311 = Runtime py311_decimal py311_digit py311_space 4300"

text \<open>\<open>re.split(r"\t| {2,}", line)\<close>: the line is cut at every tab and at every
  maximal run of two or more spaces (the quantifier is greedy); a single space is
  ordinary text. Neither alternative matches the empty string.\<close>

function re_split_from :: "pystr \<Rightarrow> pystr \<Rightarrow> pystr list" where
  "re_split_from cur [] = [cur]"
| "re_split_from cur (c # cs) =
     (if c = TAB then cur # re_split_from [] cs
      else if c = SP \<and> cs \<noteq> [] \<and> hd cs = SP
      then cur # re_split_from [] (dropWhile (\<lambda>x. x = SP) cs)
      else re_split_from (cur @ [c]) cs)"
  by pat_completeness auto
termination
  by (relation "measure (\<lambda>(cur, s). length s)")
     (auto simp: le_imp_less_Suc length_dropWhile_le)

definition re_split :: "pystr \<Rightarrow> pystr list" where
  "re_split line = re_split_from [] line"

section \<open>The CoNLL-U parser\<close>

text \<open>A decoded field is \<open>None\<close>, an integer, a string, or an \<open>OrderedDict\<close> from
  strings to decoded values. An \<open>OrderedDict\<close> is an association list in insertion
  order; assigning to a key that is present replaces its value in place.\<close>

datatype "value" = VNone | VInt int | VStr pystr | VDict "(pystr \<times> value) list"

type_synonym ordered_dict = "(pystr \<times> value) list"

fun od_set :: "pystr \<Rightarrow> value \<Rightarrow> ordered_dict \<Rightarrow> ordered_dict" where
  "od_set k v [] = [(k, v)]"
| "od_set k v ((k', v') # d) = (if k' = k then (k, v) # d else (k', v') # od_set k v d)"

text \<open>\<open>OrderedDict(pairs)\<close>.\<close>

definition OrderedDict :: "(pystr \<times> value) list \<Rightarrow> ordered_dict" where
  "OrderedDict pairs = foldl (\<lambda>d (k, v). od_set k v d) [] pairs"

definition DEFAULT_FIELDS :: "pystr list" where
  "DEFAULT_FIELDS = [py ''id'', py ''form'', py ''lemma'', py ''upostag'', py ''xpostag'',
     py ''feats'', py ''head'', py ''deprel'', py ''deps'', py ''misc'']"

definition parse_nullable_value :: "pystr \<Rightarrow> value" where
  "parse_nullable_value v = (if v = [] \<or> v = py ''_'' then VNone else VStr v)"

definition parse_int_value :: "runtime \<Rightarrow> pystr \<Rightarrow> exn + value" where
  "parse_int_value rt v =
     (if py_isdigit rt v then ebind (py_int rt v) (\<lambda>n. Inr (VInt n)) else Inr VNone)"

text \<open>One element of the comprehension in \<open>parse_dict_value\<close>: the pair
  \<open>(part.split("=")[0], parse_nullable_value(part.split("=")[1]))\<close>.\<close>

definition dict_item :: "pystr \<Rightarrow> exn + (pystr \<times> value)" where
  "dict_item part =
     ebind (py_index (py_split part (py ''='')) 0) (\<lambda>k.
     ebind (py_index (py_split part (py ''='')) 1) (\<lambda>v.
     Inr (k, parse_nullable_value v)))"

definition parse_dict_value :: "pystr \<Rightarrow> exn + value" where
  "parse_dict_value v =
     (if cp CHR ''='' \<in> set v
      then ebind (emap dict_item (py_split v (py ''|''))) (\<lambda>pairs. Inr (VDict (OrderedDict pairs)))
      else Inr (parse_nullable_value v))"

text \<open>The \<open>if\<close>/\<open>elif\<close> chain of the loop body of \<open>parse_line\<close>, which chooses the
  decoder by the field's name.\<close>

definition field_value :: "runtime \<Rightarrow> pystr \<Rightarrow> pystr \<Rightarrow> exn + value" where
  "field_value rt field raw =
     (if field = py ''id'' then parse_int_value rt raw
      else if field = py ''xpostag'' then Inr (parse_nullable_value raw)
      else if field = py ''feats'' then parse_dict_value raw
      else if field = py ''head'' then parse_int_value rt raw
      else if field = py ''deps'' then Inr (parse_nullable_value raw)
      else if field = py ''misc'' then parse_dict_value raw
      else Inr (VStr raw))"

text \<open>The loop \<open>for i, field in enumerate(fields)\<close> with its \<open>break\<close>.\<close>

fun parse_line_loop ::
  "runtime \<Rightarrow> pystr list \<Rightarrow> nat \<Rightarrow> pystr list \<Rightarrow> ordered_dict \<Rightarrow> exn + ordered_dict" where
  "parse_line_loop rt line i [] data = Inr data"
| "parse_line_loop rt line i (field # fields) data =
     (if i \<ge> length line then Inr data
      else (case field_value rt field (line ! i) of
              Inl e \<Rightarrow> Inl e
            | Inr v \<Rightarrow> parse_line_loop rt line (Suc i) fields (od_set field v data)))"

definition parse_line :: "runtime \<Rightarrow> pystr \<Rightarrow> pystr list \<Rightarrow> exn + ordered_dict" where
  "parse_line rt line fields = parse_line_loop rt (re_split line) 0 fields []"

text \<open>The condition of the inner comprehension of \<open>parse\<close>:
  \<open>line and not line.strip().startswith("#")\<close>.\<close>

definition is_record_line :: "runtime \<Rightarrow> pystr \<Rightarrow> bool" where
  "is_record_line rt line = (line \<noteq> [] \<and> \<not> startswith (py_strip rt line) (py ''#''))"

text \<open>The inner comprehension of \<open>parse\<close>: the records of one sentence block.\<close>

definition parse_sentence :: "runtime \<Rightarrow> pystr list \<Rightarrow> pystr \<Rightarrow> exn + ordered_dict list" where
  "parse_sentence rt fields sentence =
     emap (\<lambda>line. parse_line rt line fields)
       (filter (is_record_line rt) (py_split sentence [NL]))"

definition parse :: "runtime \<Rightarrow> pystr \<Rightarrow> pystr list \<Rightarrow> exn + ordered_dict list list" where
  "parse rt text fields =
     emap (parse_sentence rt fields)
       (filter (\<lambda>sentence. sentence \<noteq> []) (py_split text [NL, NL]))"

section \<open>The Matcher\<close>

text \<open>
  The values a pattern or a token can be. \<open>PyFunc\<close> is a callable object, \<open>PyRegex\<close>
  a compiled regular expression (it has \<open>match\<close> and is not callable), \<open>PyList\<close> an
  iterable container, and \<open>PyObj\<close> any other object that is neither callable nor
  iterable and has no \<open>match\<close> (a spaCy token, say); objects are known by identity.
  What calling, attribute lookup, \<open>in\<close>, \<open>!=\<close> and \<open>str\<close> do on such objects is
  decided by their classes, which are not part of the notebook: they are the fields of
  \<open>pyenv\<close>. \<open>py_contains env pat x\<close> is the truth value of \<open>x in pat\<close> and
  \<open>py_noteq env x pat\<close> that of \<open>x != pat\<close>.
\<close>

datatype pyval =
    PyNone
  | PyBool bool
  | PyInt int
  | PyStr pystr
  | PyList "pyval list"
  | PyFunc nat
  | PyRegex nat
  | PyObj nat

record pyenv =
  py_call :: "pyval \<Rightarrow> pyval list \<Rightarrow> exn + pyval"
  py_getattr :: "pyval \<Rightarrow> string \<Rightarrow> exn + pyval"
  py_contains :: "pyval \<Rightarrow> pyval \<Rightarrow> exn + bool"
  py_noteq :: "pyval \<Rightarrow> pyval \<Rightarrow> exn + bool"
  py_str :: "pyval \<Rightarrow> exn + pyval"

text \<open>The truth value \<open>not\<close> and \<open>if\<close> take of a value.\<close>

fun truthy :: "pyval \<Rightarrow> bool" where
  "truthy PyNone = False"
| "truthy (PyBool b) = b"
| "truthy (PyInt i) = (i \<noteq> 0)"
| "truthy (PyStr s) = (s \<noteq> [])"
| "truthy (PyList xs) = (xs \<noteq> [])"
| "truthy _ = True"

text \<open>The capability tests of the source: \<open>isinstance(pat, bool)\<close>,
  \<open>isinstance(pat, collections.Callable)\<close> (the name exists up to Python 3.9),
  \<open>hasattr(pat, 'match')\<close> and \<open>hasattr(pat, '__iter__')\<close> (in Python 3 a \<open>str\<close> has
  \<open>__iter__\<close>).\<close>

fun isinstance_bool :: "pyval \<Rightarrow> bool" where
  "isinstance_bool (PyBool b) = True"
| "isinstance_bool _ = False"

fun isinstance_Callable :: "pyval \<Rightarrow> bool" where
  "isinstance_Callable (PyFunc f) = True"
| "isinstance_Callable _ = False"

fun hasattr_match :: "pyval \<Rightarrow> bool" where
  "hasattr_match (PyRegex r) = True"
| "hasattr_match _ = False"

fun hasattr_iter :: "pyval \<Rightarrow> bool" where
  "hasattr_iter (PyStr s) = True"
| "hasattr_iter (PyList xs) = True"
| "hasattr_iter _ = False"

text \<open>The name \<open>arg\<close> is read in \<open>match\<close> but bound nowhere: it is neither a
  parameter or local of \<open>match\<close> or of the enclosing \<open>Matcher\<close>, nor a module-level
  name of the notebook, nor a builtin. Reading it raises NameError.\<close>

definition load_arg :: "exn + pyval" where
  "load_arg = Inl NameError"

text \<open>\<open>tok.__getattr__(attr)\<close>: look the method up, then call it.\<close>

definition dunder_getattr :: "pyenv \<Rightarrow> pyval \<Rightarrow> pyval \<Rightarrow> exn + pyval" where
  "dunder_getattr env tok attr =
     ebind (py_getattr env tok ''__getattr__'') (\<lambda>g. py_call env g [attr])"

text \<open>One pass through the body of a \<open>for\<close> loop of \<open>match\<close> ends in
  \<open>Inr (Some b)\<close> when it executes \<open>return b\<close>, in \<open>Inr None\<close> when it falls through
  to the next iteration, and in \<open>Inl e\<close> when it raises \<open>e\<close>.

  The body of the first loop. The \<open>if pat is None ... elif isinstance(pat, bool)\<close>
  statement is followed by a second, separate \<open>if\<close> statement, so a pattern \<open>True\<close>
  goes on into the second chain and ends in its \<open>else\<close> branch.\<close>

definition global_body :: "pyenv \<Rightarrow> pyval \<Rightarrow> pyval \<Rightarrow> exn + bool option" where
  "global_body env tok pat =
     (if pat = PyNone then Inr (Some False)
      else if isinstance_bool pat \<and> \<not> truthy pat then Inr (Some False)
      else if isinstance_Callable pat then
        ebind (py_call env pat [tok]) (\<lambda>r.
        Inr (if \<not> truthy r then Some False else None))
      else if hasattr_match pat then
        ebind load_arg (\<lambda>arg.
        ebind (py_getattr env arg ''search'') (\<lambda>search.
        ebind (py_getattr env tok ''text'') (\<lambda>t.
        ebind (py_call env search [t]) (\<lambda>r.
        Inr (if \<not> truthy r then Some False else None)))))
      else if hasattr_iter pat then
        ebind (py_contains env pat tok) (\<lambda>r.
        Inr (if \<not> r then Some False else None))
      else
        ebind (py_noteq env tok pat) (\<lambda>r.
        Inr (if r then Some False else None)))"

fun global_loop :: "pyenv \<Rightarrow> pyval \<Rightarrow> pyval list \<Rightarrow> exn + bool option" where
  "global_loop env tok [] = Inr None"
| "global_loop env tok (pat # pats) =
     (case global_body env tok pat of
        Inl e \<Rightarrow> Inl e
      | Inr (Some b) \<Rightarrow> Inr (Some b)
      | Inr None \<Rightarrow> global_loop env tok pats)"

text \<open>The second loop, \<open>for attr, pat in self._attr_patterns\<close>, iterates over the
  dict itself, that is over its keys, and unpacks each key: a string of two characters
  unpacks into two one-character strings, any other string raises ValueError.\<close>

fun unpack_key :: "pystr \<Rightarrow> exn + (pyval \<times> pyval)" where
  "unpack_key [a, b] = Inr (PyStr [a], PyStr [b])"
| "unpack_key _ = Inl ValueError"

definition attr_body :: "pyenv \<Rightarrow> pyval \<Rightarrow> pyval \<Rightarrow> pyval \<Rightarrow> exn + bool option" where
  "attr_body env tok attr pat =
     (if isinstance_Callable pat then
        ebind (dunder_getattr env tok attr) (\<lambda>v.
        ebind (py_call env pat [v]) (\<lambda>r.
        Inr (if \<not> truthy r then Some False else None)))
      else
        ebind load_arg (\<lambda>arg.
        if hasattr_match arg then
          ebind (py_getattr env arg ''search'') (\<lambda>search.
          ebind (dunder_getattr env tok attr) (\<lambda>v.
          ebind (py_str env v) (\<lambda>s.
          ebind (py_call env search [s]) (\<lambda>r.
          Inr (if \<not> truthy r then Some False else None)))))
        else if hasattr_iter arg then
          ebind (dunder_getattr env tok attr) (\<lambda>v.
          ebind (py_contains env pat v) (\<lambda>r.
          Inr (if \<not> r then Some False else None)))
        else
          ebind (dunder_getattr env tok attr) (\<lambda>v.
          ebind (py_noteq env v pat) (\<lambda>r.
          Inr (if r then Some False else None)))))"

fun attr_loop :: "pyenv \<Rightarrow> pyval \<Rightarrow> pystr list \<Rightarrow> exn + bool option" where
  "attr_loop env tok [] = Inr None"
| "attr_loop env tok (key # keys) =
     (case ebind (unpack_key key) (\<lambda>(attr, pat). attr_body env tok attr pat) of
        Inl e \<Rightarrow> Inl e
      | Inr (Some b) \<Rightarrow> Inr (Some b)
      | Inr None \<Rightarrow> attr_loop env tok keys)"

text \<open>What \<open>__init__\<close> would store: the positional patterns, and the keyword patterns
  as a dict in the order the keywords were written.\<close>

record matcher =
  global_patterns :: "pyval list"
  attr_patterns :: "(pystr \<times> pyval) list"

text \<open>The body of the nested function \<open>match(self, token)\<close>. The source writes
  \<open>def Matcher(tok, *args, **kwargs)\<close> and nests \<open>match\<close> inside it, so the \<open>tok\<close>
  that the body of \<open>match\<close> tests is the first argument of the enclosing \<open>Matcher\<close>;
  its own parameter \<open>token\<close> is never read.\<close>

definition match :: "pyenv \<Rightarrow> pyval \<Rightarrow> matcher \<Rightarrow> pyval \<Rightarrow> exn + bool" where
  "match env tok self token =
     (case global_loop env tok (global_patterns self) of
        Inl e \<Rightarrow> Inl e
      | Inr (Some b) \<Rightarrow> Inr b
      | Inr None \<Rightarrow>
          (case attr_loop env tok (map fst (attr_patterns self)) of
             Inl e \<Rightarrow> Inl e
           | Inr (Some b) \<Rightarrow> Inr b
           | Inr None \<Rightarrow> Inr True))"

text \<open>The call \<open>Matcher(tok, *args, **kwargs)\<close>, the only entry point of the Matcher
  that the notebook defines. \<open>Matcher\<close> is a function, not a class. Its body is the
  docstring and the two statements \<open>def __init__\<close> and \<open>def match\<close>; a \<open>def\<close>
  statement binds a local name to a function object and runs nothing of that function's
  body. Control then reaches the end of \<open>Matcher\<close>, which has no \<open>return\<close>, so every
  call returns \<open>None\<close>, whatever the token and the patterns are, and raises nothing.
  The two function objects are locals of the call and are dropped with it: no pattern is
  stored and none is tested.\<close>

definition Matcher :: "pyval \<Rightarrow> pyval list \<Rightarrow> (pystr \<times> pyval) list \<Rightarrow> exn + pyval" where
  "Matcher tok args kwargs = Inr PyNone"

section \<open>Properties of the parser\<close>

subsection \<open>Exceptions and comprehensions\<close>

lemma ebind_Inr [simp]: "ebind (Inr x) f = f x"
  by (simp add: ebind_def)

lemma ebind_Inl [simp]: "ebind (Inl e) f = Inl e"
  by (simp add: ebind_def)

lemma emap_Inr_length: "emap f xs = Inr ys \<Longrightarrow> length ys = length xs"
  by (induction xs arbitrary: ys) (auto split: sum.splits)

lemma emap_Inr_nth: "emap f xs = Inr ys \<Longrightarrow> i < length xs \<Longrightarrow> f (xs ! i) = Inr (ys ! i)"
proof (induction xs arbitrary: ys i)
  case Nil then show ?case by simp
next
  case (Cons x xs)
  then show ?case by (cases i) (auto split: sum.splits)
qed

lemma emap_total: "(\<forall>x\<in>set xs. \<exists>y. f x = Inr y) \<Longrightarrow> \<exists>ys. emap f xs = Inr ys"
  by (induction xs) (auto split: sum.splits)

lemma emap_map_projr:
  "(\<forall>x\<in>set xs. \<exists>y. f x = Inr y) \<Longrightarrow> emap f xs = Inr (map (\<lambda>x. projr (f x)) xs)"
  by (induction xs) (auto split: sum.splits)

lemma emap_map: "(\<forall>x\<in>set xs. f x = Inr (g x)) \<Longrightarrow> emap f xs = Inr (map g xs)"
  by (induction xs) auto

subsection \<open>Ordered dictionaries and the loop of parse_line\<close>

lemma od_set_fresh: "k \<notin> fst ` set d \<Longrightarrow> od_set k v d = d @ [(k, v)]"
  by (induction d) auto

lemma od_set_keys: "fst ` set (od_set k v d) = insert k (fst ` set d)"
proof (induction d)
  case Nil then show ?case by simp
next
  case (Cons p d)
  obtain k' v' where p: "p = (k', v')" by (cases p)
  show ?case by (cases "k' = k") (simp_all add: p Cons.IH insert_commute)
qed

lemma od_set_distinct: "distinct (map fst d) \<Longrightarrow> distinct (map fst (od_set k v d))"
proof (induction d)
  case Nil then show ?case by simp
next
  case (Cons p d)
  obtain k' v' where p: "p = (k', v')" by (cases p)
  from Cons show ?case by (cases "k' = k") (simp_all add: p od_set_keys)
qed

lemma parse_line_loop_keys:
  "parse_line_loop rt cols i fs data = Inr r \<Longrightarrow>
   fst ` set r = fst ` set data \<union> set (take (length cols - i) fs)"
proof (induction fs arbitrary: i data)
  case Nil then show ?case by simp
next
  case (Cons f fs)
  show ?case
  proof (cases "i \<ge> length cols")
    case True with Cons.prems show ?thesis by simp
  next
    case False
    then obtain v where v: "field_value rt f (cols ! i) = Inr v"
      and r: "parse_line_loop rt cols (Suc i) fs (od_set f v data) = Inr r"
      using Cons.prems by (auto split: sum.splits)
    from False have "length cols - i = Suc (length cols - Suc i)" by simp
    with Cons.IH[OF r] show ?thesis by (simp add: od_set_keys)
  qed
qed

lemma parse_line_loop_distinct:
  "parse_line_loop rt cols i fs data = Inr r \<Longrightarrow> distinct (map fst data) \<Longrightarrow>
   distinct (map fst r)"
proof (induction fs arbitrary: i data)
  case Nil then show ?case by simp
next
  case (Cons f fs)
  then show ?case by (auto split: sum.splits if_splits intro: od_set_distinct)
qed

lemma parse_line_loop_zip:
  "distinct fs \<Longrightarrow> set fs \<inter> fst ` set data = {} \<Longrightarrow>
   parse_line_loop rt cols i fs data =
     ebind (emap (\<lambda>(f, c). field_value rt f c) (zip fs (drop i cols)))
       (\<lambda>vs. Inr (data @ zip fs vs))"
proof (induction fs arbitrary: i data)
  case Nil then show ?case by simp
next
  case (Cons f fs)
  show ?case
  proof (cases "i \<ge> length cols")
    case True then show ?thesis by simp
  next
    case False
    then have d: "drop i cols = cols ! i # drop (Suc i) cols"
      by (simp add: Cons_nth_drop_Suc)
    show ?thesis
    proof (cases "field_value rt f (cols ! i)")
      case (Inl e) with False d show ?thesis by simp
    next
      case (Inr v)
      from Cons.prems have fresh: "f \<notin> fst ` set data" by auto
      from Cons.prems have "distinct fs" "set fs \<inter> fst ` set (data @ [(f, v)]) = {}" by auto
      from Cons.IH[OF this, of "Suc i"] Inr False d fresh show ?thesis
        by (simp add: od_set_fresh split: sum.splits)
    qed
  qed
qed

lemma parse_line_loop_Inl:
  "parse_line_loop rt cols i fs data = Inl e \<Longrightarrow>
   \<exists>j<length fs. i + j < length cols \<and> field_value rt (fs ! j) (cols ! (i + j)) = Inl e"
proof (induction fs arbitrary: i data)
  case Nil then show ?case by simp
next
  case (Cons f fs)
  from Cons.prems have i: "i < length cols" by (auto split: if_splits)
  show ?case
  proof (cases "field_value rt f (cols ! i)")
    case (Inl e')
    with Cons.prems i have "e' = e" by simp
    with Inl i have "0 < length (f # fs) \<and> i + 0 < length cols \<and>
        field_value rt ((f # fs) ! 0) (cols ! (i + 0)) = Inl e" by simp
    then show ?thesis by blast
  next
    case (Inr v)
    with Cons.prems i have "parse_line_loop rt cols (Suc i) fs (od_set f v data) = Inl e" by simp
    from Cons.IH[OF this] obtain j where "j < length fs" "Suc i + j < length cols"
      "field_value rt (fs ! j) (cols ! (Suc i + j)) = Inl e" by blast
    then have "Suc j < length (f # fs) \<and> i + Suc j < length cols \<and>
        field_value rt ((f # fs) ! Suc j) (cols ! (i + Suc j)) = Inl e" by simp
    then show ?thesis by blast
  qed
qed

subsection \<open>The decoders on ASCII input\<close>

lemma int_limit_ok_short: "n \<le> 640 \<Longrightarrow> int_limit_ok rt n"
  by (auto simp: int_limit_ok_def max_def)

lemma ascii_digit_value: "48 \<le> c \<Longrightarrow> c \<le> 57 \<Longrightarrow> decimal_value rt c = Some (c - 48)"
  by (simp add: decimal_value_def)

text \<open>Claim C5. \<open>parse_line\<close> applied to the line
  \<open>"1\tThe\tthe\tDET\t_\t_\t4\tdet\t_\t_"\<close> with the ten default fields returns the
  record below, on every runtime: \<open>id\<close> is the integer 1, \<open>form\<close> is "The",
  \<open>xpostag\<close> is \<open>None\<close>, \<open>head\<close> is the integer 4 and \<open>deps\<close> is \<open>None\<close>.\<close>

theorem parse_line_example:
  "parse_line rt (py ''1'' @ [TAB] @ py ''The'' @ [TAB] @ py ''the'' @ [TAB] @ py ''DET'' @ [TAB] @
        py ''_'' @ [TAB] @ py ''_'' @ [TAB] @ py ''4'' @ [TAB] @ py ''det'' @ [TAB] @ py ''_'' @
        [TAB] @ py ''_'')
     DEFAULT_FIELDS =
   Inr [(py ''id'', VInt 1), (py ''form'', VStr (py ''The'')), (py ''lemma'', VStr (py ''the'')),
        (py ''upostag'', VStr (py ''DET'')), (py ''xpostag'', VNone), (py ''feats'', VNone),
        (py ''head'', VInt 4), (py ''deprel'', VStr (py ''det'')), (py ''deps'', VNone),
        (py ''misc'', VNone)]"
proof -
  let ?cols = "[py ''1'', py ''The'', py ''the'', py ''DET'', py ''_'', py ''_'', py ''4'',
      py ''det'', py ''_'', py ''_'']"
  have cols: "re_split (py ''1'' @ [TAB] @ py ''The'' @ [TAB] @ py ''the'' @ [TAB] @ py ''DET'' @
        [TAB] @ py ''_'' @ [TAB] @ py ''_'' @ [TAB] @ py ''4'' @ [TAB] @ py ''det'' @ [TAB] @
        py ''_'' @ [TAB] @ py ''_'') = ?cols"
    by code_simp
  have ints: "field_value rt (py ''id'') (py ''1'') = Inr (VInt 1)"
    "field_value rt (py ''head'') (py ''4'') = Inr (VInt 4)"
    by (simp_all add: field_value_def parse_int_value_def py_isdigit_def py_int_def is_digit_def
        ascii_digit_value int_limit_ok_short py_def cp_def)
  have strs: "field_value rt (py ''form'') (py ''The'') = Inr (VStr (py ''The''))"
    "field_value rt (py ''lemma'') (py ''the'') = Inr (VStr (py ''the''))"
    "field_value rt (py ''upostag'') (py ''DET'') = Inr (VStr (py ''DET''))"
    "field_value rt (py ''deprel'') (py ''det'') = Inr (VStr (py ''det''))"
    by (simp_all add: field_value_def py_def cp_def)
  have nones: "field_value rt (py ''xpostag'') (py ''_'') = Inr VNone"
    "field_value rt (py ''feats'') (py ''_'') = Inr VNone"
    "field_value rt (py ''deps'') (py ''_'') = Inr VNone"
    "field_value rt (py ''misc'') (py ''_'') = Inr VNone"
    by (simp_all add: field_value_def parse_dict_value_def parse_nullable_value_def py_def cp_def)
  have d: "distinct DEFAULT_FIELDS"
    by (simp add: DEFAULT_FIELDS_def py_def cp_def)
  have "parse_line rt (py ''1'' @ [TAB] @ py ''The'' @ [TAB] @ py ''the'' @ [TAB] @ py ''DET'' @
        [TAB] @ py ''_'' @ [TAB] @ py ''_'' @ [TAB] @ py ''4'' @ [TAB] @ py ''det'' @ [TAB] @
        py ''_'' @ [TAB] @ py ''_'') DEFAULT_FIELDS
      = ebind (emap (\<lambda>(f, c). field_value rt f c) (zip DEFAULT_FIELDS ?cols))
          (\<lambda>vs. Inr (zip DEFAULT_FIELDS vs))"
    unfolding parse_line_def cols using parse_line_loop_zip[OF d, of "[]" rt ?cols 0] by simp
  also have "\<dots> = Inr (zip DEFAULT_FIELDS [VInt 1, VStr (py ''The''), VStr (py ''the''),
      VStr (py ''DET''), VNone, VNone, VInt 4, VStr (py ''det''), VNone, VNone])"
    by (simp add: DEFAULT_FIELDS_def ints strs nones)
  finally show ?thesis by (simp add: DEFAULT_FIELDS_def)
qed

text \<open>Claim C6. \<open>parse_dict_value("Case=Nom|Number=Sing")\<close> returns the ordered
  mapping from "Case" to "Nom" and from "Number" to "Sing", in that order, and
  \<open>parse_dict_value("_")\<close> returns \<open>None\<close>.\<close>

theorem parse_dict_value_example:
  "parse_dict_value (py ''Case=Nom|Number=Sing'') =
     Inr (VDict [(py ''Case'', VStr (py ''Nom'')), (py ''Number'', VStr (py ''Sing''))]) \<and>
   parse_dict_value (py ''_'') = Inr VNone"
  by code_simp

subsection \<open>Lines with fewer columns than fields\<close>

text \<open>Claim C7, as the code has it. Let a line have \<open>k\<close> columns, fewer than there are
  field names. \<open>parse_line\<close> stops after the \<open>k\<close>-th field. It returns a record when
  no decoder raises on one of the first \<open>k\<close> columns. Whenever it returns, the keys of
  the record are the first \<open>k\<close> field names and no others; and if the field names are
  pairwise distinct, the keys are the first \<open>k\<close> field names in field order, each with
  the decoded value of its column, and no remaining field has an entry.\<close>

theorem parse_line_fewer_columns:
  assumes cols: "cols = re_split line" and k: "k = length cols" and less: "k < length fs"
  shows "((\<forall>i<k. \<exists>v. field_value rt (fs ! i) (cols ! i) = Inr v) \<longrightarrow>
            (\<exists>data. parse_line rt line fs = Inr data)) \<and>
         (\<forall>data. parse_line rt line fs = Inr data \<longrightarrow>
            fst ` set data = set (take k fs) \<and> distinct (map fst data) \<and>
            (distinct fs \<longrightarrow>
               map fst data = take k fs \<and>
               (\<forall>i<k. field_value rt (fs ! i) (cols ! i) = Inr (snd (data ! i))) \<and>
               (\<forall>f\<in>set (drop k fs). f \<notin> fst ` set data)))"
proof -
  have returns: "\<exists>data. parse_line rt line fs = Inr data"
    if ok: "\<forall>i<k. \<exists>v. field_value rt (fs ! i) (cols ! i) = Inr v"
  proof (cases "parse_line rt line fs")
    case (Inr data) then show ?thesis by blast
  next
    case (Inl e)
    then have "parse_line_loop rt cols 0 fs [] = Inl e" by (simp add: parse_line_def cols)
    from parse_line_loop_Inl[OF this] obtain j where "j < k"
      "field_value rt (fs ! j) (cols ! j) = Inl e" by (auto simp: k)
    with ok show ?thesis by fastforce
  qed
  have keys: "fst ` set data = set (take k fs) \<and> distinct (map fst data)"
    if p: "parse_line rt line fs = Inr data" for data
  proof -
    from p have loop: "parse_line_loop rt cols 0 fs [] = Inr data"
      by (simp add: parse_line_def cols)
    from parse_line_loop_keys[OF loop] parse_line_loop_distinct[OF loop]
    show ?thesis by (simp add: k)
  qed
  have ordered: "map fst data = take k fs \<and>
      (\<forall>i<k. field_value rt (fs ! i) (cols ! i) = Inr (snd (data ! i))) \<and>
      (\<forall>f\<in>set (drop k fs). f \<notin> fst ` set data)"
    if p: "parse_line rt line fs = Inr data" and d: "distinct fs" for data
  proof -
    from p have loop: "parse_line_loop rt cols 0 fs [] = Inr data"
      by (simp add: parse_line_def cols)
    from parse_line_loop_zip[of fs "[]" rt cols 0] d loop
    have "ebind (emap (\<lambda>(f, c). field_value rt f c) (zip fs cols)) (\<lambda>vs. Inr (zip fs vs))
        = Inr data"
      by simp
    then obtain vs where vs: "emap (\<lambda>(f, c). field_value rt f c) (zip fs cols) = Inr vs"
      and data: "data = zip fs vs" by (auto simp: ebind_def split: sum.splits)
    from emap_Inr_length[OF vs] less have len: "length vs = k" by (simp add: k)
    with less have keys: "map fst data = take k fs" by (simp add: data map_fst_zip_take)
    have vals: "field_value rt (fs ! i) (cols ! i) = Inr (snd (data ! i))" if i: "i < k" for i
    proof -
      from i less have "i < length (zip fs cols)" by (simp add: k)
      from emap_Inr_nth[OF vs this] i less len show ?thesis by (simp add: data k)
    qed
    have rest: "f \<notin> fst ` set data" if f: "f \<in> set (drop k fs)" for f
    proof -
      have "set (take k fs) \<inter> set (drop k fs) = {}"
        using d by (metis append_take_drop_id distinct_append)
      with f have "f \<notin> set (take k fs)" by blast
      with keys show ?thesis by (metis set_map)
    qed
    from keys vals rest show ?thesis by blast
  qed
  from returns keys ordered show ?thesis by blast
qed

theorem parse_line_fewer_columns_witness:
  "length (re_split (py ''1'' @ [TAB] @ py ''The'' @ [TAB] @ py ''the'')) = 3 \<and>
   3 < length DEFAULT_FIELDS \<and> distinct DEFAULT_FIELDS \<and>
   (\<exists>data. parse_line python311 (py ''1'' @ [TAB] @ py ''The'' @ [TAB] @ py ''the'')
        DEFAULT_FIELDS = Inr data \<and>
      map fst data = [py ''id'', py ''form'', py ''lemma''] \<and>
      map snd data = [VInt 1, VStr (py ''The''), VStr (py ''the'')] \<and>
      py ''upostag'' \<notin> fst ` set data)"
proof -
  let ?line = "py ''1'' @ [TAB] @ py ''The'' @ [TAB] @ py ''the''"
  let ?cols = "[py ''1'', py ''The'', py ''the'']"
  have cols: "?cols = re_split ?line" by code_simp
  have k: "(3::nat) = length ?cols" by simp
  have less: "(3::nat) < length DEFAULT_FIELDS" by (simp add: DEFAULT_FIELDS_def)
  have d: "distinct DEFAULT_FIELDS" by (simp add: DEFAULT_FIELDS_def py_def cp_def)
  have v0: "field_value python311 (DEFAULT_FIELDS ! 0) (?cols ! 0) = Inr (VInt 1)" by code_simp
  have v1: "field_value python311 (DEFAULT_FIELDS ! 1) (?cols ! 1) = Inr (VStr (py ''The''))"
    by code_simp
  have v2: "field_value python311 (DEFAULT_FIELDS ! 2) (?cols ! 2) = Inr (VStr (py ''the''))"
    by code_simp
  have ok: "\<forall>i<3. \<exists>v. field_value python311 (DEFAULT_FIELDS ! i) (?cols ! i) = Inr v"
  proof (intro allI impI)
    fix i :: nat assume "i < 3"
    then have "i = 0 \<or> i = 1 \<or> i = 2" by arith
    with v0 v1 v2 show "\<exists>v. field_value python311 (DEFAULT_FIELDS ! i) (?cols ! i) = Inr v"
      by blast
  qed
  note fewer = parse_line_fewer_columns [OF cols k less, of python311]
  from fewer ok obtain data where p: "parse_line python311 ?line DEFAULT_FIELDS = Inr data"
    by blast
  with fewer d have keys: "map fst data = take 3 DEFAULT_FIELDS"
    and vals: "\<forall>i<3. field_value python311 (DEFAULT_FIELDS ! i) (?cols ! i) = Inr (snd (data ! i))"
    and rest: "\<forall>f\<in>set (drop 3 DEFAULT_FIELDS). f \<notin> fst ` set data" by blast+
  have t: "take 3 DEFAULT_FIELDS = [py ''id'', py ''form'', py ''lemma'']"
    by (simp add: DEFAULT_FIELDS_def)
  from keys t have len: "length data = 3"
    by (metis length_map length_Cons list.size(3) numeral_3_eq_3)
  have "snd (data ! 0) = VInt 1"
    using vals[rule_format, of 0] v0 by simp
  moreover have "snd (data ! 1) = VStr (py ''The'')"
    using vals[rule_format, of 1] v1 by simp
  moreover have "snd (data ! 2) = VStr (py ''the'')"
    using vals[rule_format, of 2] v2 by simp
  ultimately have snds: "map snd data = [VInt 1, VStr (py ''The''), VStr (py ''the'')]"
    using len by (intro nth_equalityI) (auto simp: less_Suc_eq numeral_3_eq_3 numeral_2_eq_2)
  have "py ''upostag'' \<in> set (drop 3 DEFAULT_FIELDS)" by (simp add: DEFAULT_FIELDS_def)
  with rest have "py ''upostag'' \<notin> fst ` set data" by blast
  with p keys t snds cols less d show ?thesis by (metis k)
qed

text \<open>The superscript two is a digit for \<open>isdigit\<close> and has no decimal value, so
  \<open>parse_int_value\<close> passes it to \<open>int\<close>, which raises.\<close>

lemma superscript_two:
  "is_digit python311 0xB2" "decimal_value python311 0xB2 = None"
  by (simp_all add: is_digit_def decimal_value_def python311_def py311_digit_def py311_decimal_def
      in_ranges_def other_digits_def decimal_zeros_def)

lemma parse_int_value_superscript: "parse_int_value python311 [0xB2] = Inl ValueError"
  by (simp add: parse_int_value_def py_isdigit_def py_int_def superscript_two)

lemma parse_line_superscript: "parse_line python311 [0xB2] DEFAULT_FIELDS = Inl ValueError"
proof -
  have "re_split [0xB2] = [[0xB2]]" by (simp add: re_split_def TAB_def SP_def)
  then show ?thesis
    by (simp add: parse_line_def DEFAULT_FIELDS_def field_value_def parse_int_value_superscript)
qed

text \<open>Claim C7 as stated fails. A line of one column, the superscript two, makes
  \<open>parse_line\<close> raise ValueError, and a line of six columns whose \<open>feats\<close> column is
  "a=b|c" makes it raise IndexError: no record is returned. With the field names
  \<open>form, form, lemma\<close> a line of two columns gives a record of one entry, since the
  second assignment to \<open>form\<close> replaces the first.\<close>

theorem parse_line_fewer_columns_counterexample:
  "parse_line python311 [0xB2] DEFAULT_FIELDS = Inl ValueError \<and>
   parse_line python311
     (py ''1'' @ [TAB] @ py ''The'' @ [TAB] @ py ''the'' @ [TAB] @ py ''DET'' @ [TAB] @ py ''_'' @
      [TAB] @ py ''a=b|c'') DEFAULT_FIELDS = Inl IndexError \<and>
   parse_line python311 (py ''a'' @ [TAB] @ py ''b'') [py ''form'', py ''form'', py ''lemma'']
     = Inr [(py ''form'', VStr (py ''b''))]"
proof (intro conjI)
  show "parse_line python311 [0xB2] DEFAULT_FIELDS = Inl ValueError"
    by (rule parse_line_superscript)
  show "parse_line python311
     (py ''1'' @ [TAB] @ py ''The'' @ [TAB] @ py ''the'' @ [TAB] @ py ''DET'' @ [TAB] @ py ''_'' @
      [TAB] @ py ''a=b|c'') DEFAULT_FIELDS = Inl IndexError"
    by code_simp
  show "parse_line python311 (py ''a'' @ [TAB] @ py ''b'') [py ''form'', py ''form'', py ''lemma'']
     = Inr [(py ''form'', VStr (py ''b''))]"
    by code_simp
qed

subsection \<open>When the field decoders raise\<close>

lemma split_from_nonempty: "split_from sep cur s \<noteq> []"
  by (induction s arbitrary: cur) auto

lemma split_from_two: "c \<in> set s \<Longrightarrow> 2 \<le> length (split_from [c] cur s)"
proof (induction s arbitrary: cur)
  case Nil then show ?case by simp
next
  case (Cons x xs)
  show ?case
  proof (cases "x = c")
    case True
    have "1 \<le> length (split_from [c] [] xs)"
      using split_from_nonempty[of "[c]" "[]" xs] by (cases "split_from [c] [] xs") auto
    with True show ?thesis by simp
  next
    case False
    with Cons.prems have "c \<in> set xs" by simp
    from Cons.IH[OF this] False show ?thesis by simp
  qed
qed

lemma dict_item_pair:
  assumes "cp CHR ''='' \<in> set part"
  shows "dict_item part =
     Inr (py_split part (py ''='') ! 0, parse_nullable_value (py_split part (py ''='') ! 1))"
proof -
  have sep: "py ''='' = [cp CHR ''='']" by (simp add: py_def)
  from split_from_two[OF assms, of "[]"]
  have "0 < length (py_split part (py ''=''))" "1 < length (py_split part (py ''=''))"
    by (auto simp: py_split_def sep)
  then show ?thesis by (simp add: dict_item_def py_index_def)
qed

lemma split_from_chars:
  "p \<in> set (split_from sep cur s) \<Longrightarrow> set p \<subseteq> set cur \<union> set s"
proof (induction sep cur s rule: split_from.induct)
  case (1 sep cur) then show ?case by simp
next
  case (2 sep cur c cs)
  show ?case
  proof (cases "sep \<noteq> [] \<and> take (length sep) (c # cs) = sep")
    case True
    with "2.prems" have "p = cur \<or> p \<in> set (split_from sep [] (drop (length sep - 1) cs))"
      by simp
    then show ?thesis
    proof
      assume "p = cur" then show ?thesis by auto
    next
      assume "p \<in> set (split_from sep [] (drop (length sep - 1) cs))"
      from "2.IH"(1)[OF True this] have "set p \<subseteq> set (drop (length sep - 1) cs)" by simp
      also have "\<dots> \<subseteq> set cs" by (rule set_drop_subset)
      finally show ?thesis by auto
    qed
  next
    case False
    with "2.prems" have "p \<in> set (split_from sep (cur @ [c]) cs)" by auto
    from "2.IH"(2)[OF False this] show ?thesis by auto
  qed
qed

lemma parse_dict_value_dict:
  assumes "\<forall>part\<in>set (py_split s (py ''|'')). cp CHR ''='' \<in> set part"
  shows "parse_dict_value s =
     Inr (VDict (OrderedDict (map
       (\<lambda>part. (py_split part (py ''='') ! 0, parse_nullable_value (py_split part (py ''='') ! 1)))
       (py_split s (py ''|'')))))"
proof -
  obtain p where p: "p \<in> set (py_split s (py ''|''))"
    using split_from_nonempty[of "py ''|''" "[]" s]
    by (cases "py_split s (py ''|'')") (auto simp: py_split_def)
  with assms have "cp CHR ''='' \<in> set p" by blast
  moreover from p have "set p \<subseteq> set s" using split_from_chars[of p "py ''|''" "[]" s]
    by (simp add: py_split_def)
  ultimately have eq: "cp CHR ''='' \<in> set s" by blast
  from assms have "\<forall>part\<in>set (py_split s (py ''|'')). dict_item part =
      Inr (py_split part (py ''='') ! 0, parse_nullable_value (py_split part (py ''='') ! 1))"
    by (blast intro: dict_item_pair)
  from emap_map[OF this] eq show ?thesis by (simp add: parse_dict_value_def)
qed

lemma parse_int_value_decimal:
  assumes "py_isdigit rt s" and "\<forall>c\<in>set s. decimal_value rt c \<noteq> None"
    and "int_limit_ok rt (length s)"
  shows "parse_int_value rt s =
     Inr (VInt (foldl (\<lambda>acc c. 10 * acc + int (the (decimal_value rt c))) 0 s))"
  using assms by (simp add: parse_int_value_def py_int_def py_isdigit_def list_all_iff)

lemma field_value_total:
  assumes "py_isdigit rt col \<longrightarrow>
      (\<forall>c\<in>set col. decimal_value rt c \<noteq> None) \<and> int_limit_ok rt (length col)"
    and "cp CHR ''='' \<in> set col \<longrightarrow> (\<forall>part\<in>set (py_split col (py ''|'')). cp CHR ''='' \<in> set part)"
  shows "\<exists>v. field_value rt f col = Inr v"
proof -
  have i: "\<exists>v. parse_int_value rt col = Inr v"
  proof (cases "py_isdigit rt col")
    case True with assms(1) parse_int_value_decimal[of rt col] show ?thesis by blast
  next
    case False then show ?thesis by (simp add: parse_int_value_def)
  qed
  have d: "\<exists>v. parse_dict_value col = Inr v"
  proof (cases "cp CHR ''='' \<in> set col")
    case True with assms(2) parse_dict_value_dict[of col] show ?thesis by blast
  next
    case False then show ?thesis by (simp add: parse_dict_value_def)
  qed
  from i d show ?thesis by (simp add: field_value_def)
qed

text \<open>Claim C1, as the code has it. The field decoders are not total, and a value that
  is not a dict does not decode to \<open>None\<close>:
  \<^item> \<open>parse_nullable_value\<close> never raises; it returns \<open>None\<close> for the empty string and
    for "_", and its argument unchanged otherwise.
  \<^item> \<open>parse_int_value\<close> returns \<open>None\<close> for every string for which \<open>isdigit\<close> is
    false. For a string for which \<open>isdigit\<close> is true it returns the integer the string
    denotes, when every character has a decimal digit value (as 0 to 9 have) and the
    string is within the runtime's limit on the length of integer strings.
  \<^item> \<open>parse_dict_value\<close> on a value without "=" returns what \<open>parse_nullable_value\<close>
    returns: \<open>None\<close> for the empty string and for "_", the raw string otherwise. On a
    value whose parts between "|" all contain "=" it returns the ordered mapping built
    from one pair per part: the text before the part's first "=", and
    \<open>parse_nullable_value\<close> of the text between its first and second "=".
  \<^item> \<open>parse_line\<close> raises nothing on a line each of whose columns meets the condition
    on integers (\<open>isdigit\<close> false, or decimal and within the limit) and the condition on
    dicts (no "=", or "=" in every part).\<close>

theorem field_decoders_no_error:
  "parse_nullable_value s = (if s = [] \<or> s = py ''_'' then VNone else VStr s) \<and>
   (\<not> py_isdigit rt s \<longrightarrow> parse_int_value rt s = Inr VNone) \<and>
   (py_isdigit rt s \<and> (\<forall>c\<in>set s. decimal_value rt c \<noteq> None) \<and> int_limit_ok rt (length s) \<longrightarrow>
      parse_int_value rt s =
        Inr (VInt (foldl (\<lambda>acc c. 10 * acc + int (the (decimal_value rt c))) 0 s))) \<and>
   (cp CHR ''='' \<notin> set s \<longrightarrow>
      parse_dict_value s = Inr (if s = [] \<or> s = py ''_'' then VNone else VStr s)) \<and>
   ((\<forall>part\<in>set (py_split s (py ''|'')). cp CHR ''='' \<in> set part) \<longrightarrow>
      parse_dict_value s =
        Inr (VDict (OrderedDict (map
          (\<lambda>part. (py_split part (py ''='') ! 0,
                    parse_nullable_value (py_split part (py ''='') ! 1)))
          (py_split s (py ''|'')))))) \<and>
   ((\<forall>col\<in>set (re_split line).
        (py_isdigit rt col \<longrightarrow>
           (\<forall>c\<in>set col. decimal_value rt c \<noteq> None) \<and> int_limit_ok rt (length col)) \<and>
        (cp CHR ''='' \<in> set col \<longrightarrow>
           (\<forall>part\<in>set (py_split col (py ''|'')). cp CHR ''='' \<in> set part))) \<longrightarrow>
      (\<exists>data. parse_line rt line fs = Inr data))"
proof -
  have nullable: "parse_nullable_value s = (if s = [] \<or> s = py ''_'' then VNone else VStr s)"
    by (simp add: parse_nullable_value_def)
  have not_int: "parse_int_value rt s = Inr VNone" if "\<not> py_isdigit rt s"
    using that by (simp add: parse_int_value_def)
  have not_dict: "parse_dict_value s = Inr (if s = [] \<or> s = py ''_'' then VNone else VStr s)"
    if "cp CHR ''='' \<notin> set s"
    using that by (simp add: parse_dict_value_def parse_nullable_value_def)
  have line: "\<exists>data. parse_line rt line fs = Inr data"
    if safe: "\<forall>col\<in>set (re_split line).
        (py_isdigit rt col \<longrightarrow>
           (\<forall>c\<in>set col. decimal_value rt c \<noteq> None) \<and> int_limit_ok rt (length col)) \<and>
        (cp CHR ''='' \<in> set col \<longrightarrow>
           (\<forall>part\<in>set (py_split col (py ''|'')). cp CHR ''='' \<in> set part))"
  proof (cases "parse_line rt line fs")
    case (Inr data) then show ?thesis by blast
  next
    case (Inl e)
    then have "parse_line_loop rt (re_split line) 0 fs [] = Inl e" by (simp add: parse_line_def)
    from parse_line_loop_Inl[OF this] obtain j where j: "j < length (re_split line)"
      and raised: "field_value rt (fs ! j) (re_split line ! j) = Inl e" by auto
    from j have "re_split line ! j \<in> set (re_split line)" by simp
    with safe field_value_total[of rt "re_split line ! j" "fs ! j"] raised
    show ?thesis by fastforce
  qed
  from nullable not_int parse_int_value_decimal[of rt s] not_dict parse_dict_value_dict[of s] line
  show ?thesis by blast
qed

theorem field_decoders_no_error_witness:
  "parse_int_value python311 (py ''x1'') = Inr VNone \<and>
   parse_int_value python311 (py ''12'') = Inr (VInt 12) \<and>
   parse_dict_value (py ''SpaceAfter'') = Inr (VStr (py ''SpaceAfter'')) \<and>
   parse_dict_value (py ''a=b|c=d'') =
     Inr (VDict [(py ''a'', VStr (py ''b'')), (py ''c'', VStr (py ''d''))]) \<and>
   (\<exists>data. parse_line python311 (py ''12'' @ [TAB] @ py ''x1'' @ [TAB] @ py ''a=b|c=d'')
      [py ''id'', py ''form'', py ''feats''] = Inr data)"
proof -
  have h1: "\<not> py_isdigit python311 (py ''x1'')" by code_simp
  have h2: "py_isdigit python311 (py ''12'') \<and>
      (\<forall>c\<in>set (py ''12''). decimal_value python311 c \<noteq> None) \<and>
      int_limit_ok python311 (length (py ''12''))" by code_simp
  have v2: "foldl (\<lambda>acc c. 10 * acc + int (the (decimal_value python311 c))) 0 (py ''12'') = 12"
    by code_simp
  have h3: "cp CHR ''='' \<notin> set (py ''SpaceAfter'')" by code_simp
  have v3: "(if py ''SpaceAfter'' = [] \<or> py ''SpaceAfter'' = py ''_'' then VNone
      else VStr (py ''SpaceAfter'')) = VStr (py ''SpaceAfter'')" by code_simp
  have h4: "\<forall>part\<in>set (py_split (py ''a=b|c=d'') (py ''|'')). cp CHR ''='' \<in> set part"
    by code_simp
  have v4: "OrderedDict (map
          (\<lambda>part. (py_split part (py ''='') ! 0,
                    parse_nullable_value (py_split part (py ''='') ! 1)))
          (py_split (py ''a=b|c=d'') (py ''|'')))
      = [(py ''a'', VStr (py ''b'')), (py ''c'', VStr (py ''d''))]" by code_simp
  have cols: "re_split (py ''12'' @ [TAB] @ py ''x1'' @ [TAB] @ py ''a=b|c=d'')
      = [py ''12'', py ''x1'', py ''a=b|c=d'']" by code_simp
  have h5: "\<forall>col\<in>set (re_split (py ''12'' @ [TAB] @ py ''x1'' @ [TAB] @ py ''a=b|c=d'')).
        (py_isdigit python311 col \<longrightarrow>
           (\<forall>c\<in>set col. decimal_value python311 c \<noteq> None) \<and>
           int_limit_ok python311 (length col)) \<and>
        (cp CHR ''='' \<in> set col \<longrightarrow>
           (\<forall>part\<in>set (py_split col (py ''|'')). cp CHR ''='' \<in> set part))"
    unfolding cols by code_simp
  from field_decoders_no_error[of "py ''x1''" python311] h1
  have a: "parse_int_value python311 (py ''x1'') = Inr VNone" by blast
  from field_decoders_no_error[of "py ''12''" python311] h2 v2
  have b: "parse_int_value python311 (py ''12'') = Inr (VInt 12)" by simp
  from field_decoders_no_error[of "py ''SpaceAfter''"] h3 v3
  have c: "parse_dict_value (py ''SpaceAfter'') = Inr (VStr (py ''SpaceAfter''))" by simp
  from field_decoders_no_error[of "py ''a=b|c=d''"] h4 v4
  have d: "parse_dict_value (py ''a=b|c=d'') =
     Inr (VDict [(py ''a'', VStr (py ''b'')), (py ''c'', VStr (py ''d''))])" by simp
  from field_decoders_no_error[of _ python311
      "py ''12'' @ [TAB] @ py ''x1'' @ [TAB] @ py ''a=b|c=d''"
      "[py ''id'', py ''form'', py ''feats'']"] h5
  have e: "\<exists>data. parse_line python311 (py ''12'' @ [TAB] @ py ''x1'' @ [TAB] @ py ''a=b|c=d'')
      [py ''id'', py ''form'', py ''feats''] = Inr data"
    by blast
  from a b c d e show ?thesis by blast
qed

lemma superscript_four:
  "is_digit python311 0x2074" "decimal_value python311 0x2074 = None"
  by (simp_all add: is_digit_def decimal_value_def python311_def py311_digit_def py311_decimal_def
      in_ranges_def other_digits_def decimal_zeros_def)

text \<open>Claim C1 as stated fails: \<open>parse_dict_value("abc")\<close> is the string "abc", not
  \<open>None\<close>; \<open>parse_dict_value("a=b|c")\<close> raises IndexError, because the part "c" has no
  "=" and \<open>part.split("=")[1]\<close> is out of range; \<open>parse_int_value\<close> of the superscript
  two (U+00B2) and of the superscript four (U+2074) raises ValueError, because
  \<open>isdigit\<close> accepts them and \<open>int\<close> does not; and \<open>parse_line\<close> raises on a line with
  such a \<open>feats\<close> column.\<close>

theorem field_decoders_counterexample:
  "parse_dict_value (py ''abc'') = Inr (VStr (py ''abc'')) \<and>
   parse_dict_value (py ''a=b|c'') = Inl IndexError \<and>
   parse_int_value python311 [0xB2] = Inl ValueError \<and>
   parse_int_value python311 [0x2074] = Inl ValueError \<and>
   parse_line python311
     (py ''1'' @ [TAB] @ py ''The'' @ [TAB] @ py ''the'' @ [TAB] @ py ''DET'' @ [TAB] @ py ''_'' @
      [TAB] @ py ''a=b|c'') DEFAULT_FIELDS = Inl IndexError"
proof (intro conjI)
  show "parse_dict_value (py ''abc'') = Inr (VStr (py ''abc''))" by code_simp
  show "parse_dict_value (py ''a=b|c'') = Inl IndexError" by code_simp
  show "parse_int_value python311 [0xB2] = Inl ValueError" by (rule parse_int_value_superscript)
  show "parse_int_value python311 [0x2074] = Inl ValueError"
    by (simp add: parse_int_value_def py_isdigit_def py_int_def superscript_four)
  show "parse_line python311
     (py ''1'' @ [TAB] @ py ''The'' @ [TAB] @ py ''the'' @ [TAB] @ py ''DET'' @ [TAB] @ py ''_'' @
      [TAB] @ py ''a=b|c'') DEFAULT_FIELDS = Inl IndexError" by code_simp
qed

subsection \<open>Documents\<close>

lemma nn_skip_line:
  "NL \<notin> set l \<Longrightarrow> split_from [NL, NL] cur (l @ rest) = split_from [NL, NL] (cur @ l) rest"
  by (induction l arbitrary: cur) auto

lemma nn_single_newline:
  "rest = [] \<or> hd rest \<noteq> NL \<Longrightarrow>
   split_from [NL, NL] cur (NL # rest) = split_from [NL, NL] (cur @ [NL]) rest"
  by (cases rest) auto

lemma nn_skip_block:
  "\<forall>l\<in>set ls. l \<noteq> [] \<and> NL \<notin> set l \<Longrightarrow>
   split_from [NL, NL] cur (py_join [NL] ls @ rest) =
     split_from [NL, NL] (cur @ py_join [NL] ls) rest"
proof (induction ls arbitrary: cur)
  case Nil then show ?case by simp
next
  case (Cons x xs)
  show ?case
  proof (cases xs)
    case Nil
    with Cons.prems show ?thesis by (simp add: nn_skip_line)
  next
    case (Cons y ys)
    with Cons.prems have y: "y \<noteq> []" "NL \<notin> set y" and x: "NL \<notin> set x" by auto
    from y obtain c cs where ycs: "y = c # cs" "c \<noteq> NL" by (cases y) auto
    have hd: "py_join [NL] xs @ rest = [] \<or> hd (py_join [NL] xs @ rest) \<noteq> NL"
      using Cons ycs by (cases ys) auto
    have "split_from [NL, NL] cur (py_join [NL] (x # xs) @ rest)
        = split_from [NL, NL] cur (x @ NL # (py_join [NL] xs @ rest))"
      using Cons by simp
    also have "\<dots> = split_from [NL, NL] (cur @ x) (NL # (py_join [NL] xs @ rest))"
      using x by (rule nn_skip_line)
    also have "\<dots> = split_from [NL, NL] ((cur @ x) @ [NL]) (py_join [NL] xs @ rest)"
      using hd by (rule nn_single_newline)
    also have "\<dots> = split_from [NL, NL] (((cur @ x) @ [NL]) @ py_join [NL] xs) rest"
      using Cons.prems by (intro Cons.IH) simp
    also have "\<dots> = split_from [NL, NL] (cur @ py_join [NL] (x # xs)) rest"
      using Cons by simp
    finally show ?thesis .
  qed
qed

lemma n_skip_line:
  "NL \<notin> set l \<Longrightarrow> split_from [NL] cur (l @ rest) = split_from [NL] (cur @ l) rest"
  by (induction l arbitrary: cur) auto

lemma split_join_lines:
  "ls \<noteq> [] \<Longrightarrow> \<forall>l\<in>set ls. NL \<notin> set l \<Longrightarrow>
   split_from [NL] cur (py_join [NL] ls) = (cur @ hd ls) # tl ls"
proof (induction ls arbitrary: cur)
  case Nil then show ?case by simp
next
  case (Cons x xs)
  show ?case
  proof (cases xs)
    case Nil
    with Cons.prems n_skip_line[of x cur "[]"] show ?thesis by simp
  next
    case (Cons y ys)
    with Cons.prems have x: "NL \<notin> set x" and xs: "xs \<noteq> []" "\<forall>l\<in>set xs. NL \<notin> set l"
      by auto
    have "split_from [NL] cur (py_join [NL] (x # xs))
        = split_from [NL] cur (x @ NL # py_join [NL] xs)"
      using Cons by simp
    also have "\<dots> = split_from [NL] (cur @ x) (NL # py_join [NL] xs)"
      using x by (rule n_skip_line)
    also have "\<dots> = (cur @ x) # split_from [NL] [] (py_join [NL] xs)" by simp
    also have "\<dots> = (cur @ x) # ([] @ hd xs) # tl xs"
      using Cons.IH[OF xs, of "[]"] by simp
    finally show ?thesis using xs by simp
  qed
qed

lemma py_split_join_lines:
  "ls \<noteq> [] \<Longrightarrow> \<forall>l\<in>set ls. NL \<notin> set l \<Longrightarrow> py_split (py_join [NL] ls) [NL] = ls"
  by (simp add: py_split_def split_join_lines)

lemma py_join_snoc: "ls \<noteq> [] \<Longrightarrow> py_join sep (ls @ [x]) = py_join sep ls @ sep @ x"
proof (induction ls)
  case Nil then show ?case by simp
next
  case (Cons y ys) then show ?case by (cases ys) auto
qed

lemma py_join_nonempty: "x \<in> set ls \<Longrightarrow> x \<noteq> [] \<Longrightarrow> py_join sep ls \<noteq> []"
proof (induction ls)
  case Nil then show ?case by simp
next
  case (Cons y ys) then show ?case by (cases ys) auto
qed

lemma comment_line_nonempty: "startswith (py_strip rt c) (py ''#'') \<Longrightarrow> c \<noteq> []"
  by (auto simp: startswith_def py_strip_def py_def)

lemma parse_sentence_block:
  assumes toks: "\<forall>l\<in>set ls. is_record_line rt l \<and> NL \<notin> set l"
    and com: "startswith (py_strip rt c) (py ''#'') \<and> NL \<notin> set c"
  shows "parse_sentence rt fs (py_join [NL] (ls @ [c])) = emap (\<lambda>l. parse_line rt l fs) ls"
    and "parse_sentence rt fs (py_join [NL] (ls @ [c]) @ [NL]) = emap (\<lambda>l. parse_line rt l fs) ls"
proof -
  from toks have keep: "filter (is_record_line rt) ls = ls" by (simp add: filter_id_conv)
  from com have drop: "\<not> is_record_line rt c" by (simp add: is_record_line_def)
  have empty: "\<not> is_record_line rt []" by (simp add: is_record_line_def)
  from toks com have nl: "\<forall>l\<in>set (ls @ [c]). NL \<notin> set l" by auto
  then have "py_split (py_join [NL] (ls @ [c])) [NL] = ls @ [c]"
    by (intro py_split_join_lines) simp_all
  with keep drop
  show "parse_sentence rt fs (py_join [NL] (ls @ [c])) = emap (\<lambda>l. parse_line rt l fs) ls"
    by (simp add: parse_sentence_def)
  have "py_join [NL] (ls @ [c]) @ [NL] = py_join [NL] ((ls @ [c]) @ [[]])"
    by (subst py_join_snoc) simp_all
  moreover from nl have "py_split (py_join [NL] ((ls @ [c]) @ [[]])) [NL] = (ls @ [c]) @ [[]]"
    by (intro py_split_join_lines) simp_all
  ultimately
  show "parse_sentence rt fs (py_join [NL] (ls @ [c]) @ [NL]) = emap (\<lambda>l. parse_line rt l fs) ls"
    using keep drop empty by (simp add: parse_sentence_def)
qed

lemma block_lines:
  assumes "\<forall>l\<in>set ls. is_record_line rt l \<and> NL \<notin> set l"
    and "startswith (py_strip rt c) (py ''#'') \<and> NL \<notin> set c"
  shows "\<forall>l\<in>set (ls @ [c]). l \<noteq> [] \<and> NL \<notin> set l" and "py_join [NL] (ls @ [c]) \<noteq> []"
proof -
  from assms(2) have c: "c \<noteq> []" by (auto dest: comment_line_nonempty)
  with assms show "\<forall>l\<in>set (ls @ [c]). l \<noteq> [] \<and> NL \<notin> set l"
    by (auto simp: is_record_line_def)
  from c show "py_join [NL] (ls @ [c]) \<noteq> []" by (intro py_join_nonempty[of c]) simp_all
qed

text \<open>Claim C8, as the code has it. Let a text consist of the token lines of a first
  sentence, a comment line, a blank line, the token lines of a second sentence and a
  comment line, and end there, or after one more newline, or after one more blank line.
  \<open>parse\<close> evaluates \<open>parse_line\<close> on the token lines of the first sentence and then on
  those of the second, in order, and on no comment line or empty line. It raises what
  the first failing \<open>parse_line\<close> raises; otherwise it returns exactly two groups, the
  records of the first sentence and those of the second. So whenever \<open>parse\<close> returns,
  the result has exactly two groups with one record per token line.\<close>

theorem parse_two_sentences:
  assumes toks: "\<forall>l\<in>set (ls1 @ ls2). is_record_line rt l \<and> NL \<notin> set l"
    and coms: "\<forall>c\<in>{c1, c2}. startswith (py_strip rt c) (py ''#'') \<and> NL \<notin> set c"
    and tail: "tail \<in> {[], [NL], [NL, NL]}"
    and shape: "text = py_join [NL] (ls1 @ [c1]) @ [NL, NL] @ py_join [NL] (ls2 @ [c2]) @ tail"
  shows "parse rt text fs =
           ebind (emap (\<lambda>l. parse_line rt l fs) ls1) (\<lambda>g1.
           ebind (emap (\<lambda>l. parse_line rt l fs) ls2) (\<lambda>g2. Inr [g1, g2])) \<and>
         (\<forall>groups. parse rt text fs = Inr groups \<longrightarrow>
            length groups = 2 \<and> length (groups ! 0) = length ls1 \<and>
            length (groups ! 1) = length ls2)"
proof -
  let ?B1 = "py_join [NL] (ls1 @ [c1])" and ?B2 = "py_join [NL] (ls2 @ [c2])"
  from toks have t1: "\<forall>l\<in>set ls1. is_record_line rt l \<and> NL \<notin> set l"
    and t2: "\<forall>l\<in>set ls2. is_record_line rt l \<and> NL \<notin> set l" by auto
  from coms have k1: "startswith (py_strip rt c1) (py ''#'') \<and> NL \<notin> set c1"
    and k2: "startswith (py_strip rt c2) (py ''#'') \<and> NL \<notin> set c2" by auto
  note b1 = block_lines[OF t1 k1] and b2 = block_lines[OF t2 k2]
  have "py_split text [NL, NL] = split_from [NL, NL] [] (?B1 @ (NL # NL # ?B2 @ tail))"
    by (simp add: py_split_def shape)
  also have "\<dots> = split_from [NL, NL] ([] @ ?B1) (NL # NL # ?B2 @ tail)"
    using b1(1) by (rule nn_skip_block)
  also have "\<dots> = ?B1 # split_from [NL, NL] [] (?B2 @ tail)" by simp
  also have "split_from [NL, NL] [] (?B2 @ tail) = split_from [NL, NL] ([] @ ?B2) tail"
    using b2(1) by (rule nn_skip_block)
  finally have blocks: "py_split text [NL, NL] = ?B1 # split_from [NL, NL] ?B2 tail" by simp
  have sentences:
    "emap (parse_sentence rt fs) (filter (\<lambda>s. s \<noteq> []) (split_from [NL, NL] ?B2 tail))
      = ebind (emap (\<lambda>l. parse_line rt l fs) ls2) (\<lambda>g2. Inr [g2])"
    using tail b2(2) parse_sentence_block[OF t2 k2, of fs]
    by (auto simp: ebind_def split: sum.splits)
  have eq: "parse rt text fs =
           ebind (emap (\<lambda>l. parse_line rt l fs) ls1) (\<lambda>g1.
           ebind (emap (\<lambda>l. parse_line rt l fs) ls2) (\<lambda>g2. Inr [g1, g2]))"
    using b1(2) sentences parse_sentence_block(1)[OF t1 k1, of fs]
    by (simp add: parse_def blocks ebind_def split: sum.splits)
  have "length groups = 2 \<and> length (groups ! 0) = length ls1 \<and> length (groups ! 1) = length ls2"
    if "parse rt text fs = Inr groups" for groups
  proof -
    from that eq obtain g1 g2 where "emap (\<lambda>l. parse_line rt l fs) ls1 = Inr g1"
      "emap (\<lambda>l. parse_line rt l fs) ls2 = Inr g2" "groups = [g1, g2]"
      by (auto simp: ebind_def split: sum.splits)
    then show ?thesis by (auto dest: emap_Inr_length)
  qed
  with eq show ?thesis by blast
qed

theorem parse_two_sentences_witness:
  "parse python311
     (py_join [NL] ([py ''1'' @ [TAB] @ py ''The'', py ''2'' @ [TAB] @ py ''dog''] @ [py ''# first''])
        @ [NL, NL] @
      py_join [NL] ([py ''1'' @ [TAB] @ py ''It''] @ [py '' # second'']) @ [NL])
     [py ''id'', py ''form''] =
   Inr [[[(py ''id'', VInt 1), (py ''form'', VStr (py ''The''))],
         [(py ''id'', VInt 2), (py ''form'', VStr (py ''dog''))]],
        [[(py ''id'', VInt 1), (py ''form'', VStr (py ''It''))]]]"
proof -
  let ?ls1 = "[py ''1'' @ [TAB] @ py ''The'', py ''2'' @ [TAB] @ py ''dog'']"
  let ?ls2 = "[py ''1'' @ [TAB] @ py ''It'']"
  have toks: "\<forall>l\<in>set (?ls1 @ ?ls2). is_record_line python311 l \<and> NL \<notin> set l" by code_simp
  have coms: "\<forall>c\<in>{py ''# first'', py '' # second''}.
      startswith (py_strip python311 c) (py ''#'') \<and> NL \<notin> set c"
    by code_simp
  have tail: "[NL] \<in> {[], [NL], [NL, NL]}" by simp
  have g1: "emap (\<lambda>l. parse_line python311 l [py ''id'', py ''form'']) ?ls1 =
      Inr [[(py ''id'', VInt 1), (py ''form'', VStr (py ''The''))],
           [(py ''id'', VInt 2), (py ''form'', VStr (py ''dog''))]]"
    by code_simp
  have g2: "emap (\<lambda>l. parse_line python311 l [py ''id'', py ''form'']) ?ls2 =
      Inr [[(py ''id'', VInt 1), (py ''form'', VStr (py ''It''))]]"
    by code_simp
  from parse_two_sentences[OF toks coms tail refl, of "[py ''id'', py ''form'']"] g1 g2
  show ?thesis by (simp add: ebind_def)
qed

text \<open>Claim C8 as stated fails: on a text of this shape whose first token line has the
  \<open>feats\<close> column "a=b|c", \<open>parse\<close> raises IndexError and returns no groups.\<close>

theorem parse_two_sentences_counterexample:
  "parse python311
     (py ''1'' @ [TAB] @ py ''The'' @ [TAB] @ py ''the'' @ [TAB] @ py ''DET'' @ [TAB] @ py ''_'' @
        [TAB] @ py ''a=b|c'' @ [NL] @ py ''# first'' @ [NL, NL] @
      py ''1'' @ [TAB] @ py ''It'' @ [NL] @ py ''# second'')
     DEFAULT_FIELDS = Inl IndexError"
  by code_simp

text \<open>Claim C10, as the code has it. Let \<open>blocks\<close> be the non-empty pieces of
  \<open>text.split("\n\n")\<close>. When \<open>parse\<close> returns, its result has one group per
  non-empty block, and the group of every such block whose lines are all empty or
  comment lines is the empty list; when every non-empty block is of that kind, \<open>parse\<close>
  returns one empty group per block. An empty block has no group.\<close>

theorem parse_comment_only_block:
  assumes blocks: "blocks = filter (\<lambda>sentence. sentence \<noteq> []) (py_split text [NL, NL])"
  shows "(\<forall>groups. parse rt text fs = Inr groups \<longrightarrow>
            length groups = length blocks \<and>
            (\<forall>i<length blocks.
               (\<forall>line\<in>set (py_split (blocks ! i) [NL]).
                   line = [] \<or> startswith (py_strip rt line) (py ''#'')) \<longrightarrow>
               groups ! i = [])) \<and>
         ((\<forall>b\<in>set blocks. \<forall>line\<in>set (py_split b [NL]).
              line = [] \<or> startswith (py_strip rt line) (py ''#'')) \<longrightarrow>
            parse rt text fs = Inr (replicate (length blocks) []))"
proof -
  have skipped: "parse_sentence rt fs b = Inr []"
    if "\<forall>line\<in>set (py_split b [NL]). line = [] \<or> startswith (py_strip rt line) (py ''#'')"
    for b
  proof -
    from that have "filter (is_record_line rt) (py_split b [NL]) = []"
      by (auto simp: filter_empty_conv is_record_line_def)
    then show ?thesis by (simp add: parse_sentence_def)
  qed
  have 1: "length groups = length blocks \<and>
      (\<forall>i<length blocks.
         (\<forall>line\<in>set (py_split (blocks ! i) [NL]).
             line = [] \<or> startswith (py_strip rt line) (py ''#'')) \<longrightarrow>
         groups ! i = [])"
    if "parse rt text fs = Inr groups" for groups
  proof -
    from that have m: "emap (parse_sentence rt fs) blocks = Inr groups"
      by (simp add: parse_def blocks)
    from emap_Inr_nth[OF m] skipped emap_Inr_length[OF m] show ?thesis by fastforce
  qed
  have 2: "parse rt text fs = Inr (replicate (length blocks) [])"
    if "\<forall>b\<in>set blocks. \<forall>line\<in>set (py_split b [NL]).
          line = [] \<or> startswith (py_strip rt line) (py ''#'')"
  proof -
    from that skipped have "\<forall>b\<in>set blocks. parse_sentence rt fs b = Inr []" by blast
    from emap_map[OF this]
    have "emap (parse_sentence rt fs) blocks = Inr (map (\<lambda>b. []) blocks)" .
    then show ?thesis by (simp add: parse_def blocks map_replicate_const)
  qed
  from 1 2 show ?thesis by blast
qed

theorem parse_comment_only_block_witness:
  "parse python311 (py ''# a'' @ [NL, NL] @ py ''# b'') DEFAULT_FIELDS = Inr [[], []] \<and>
   (\<exists>groups. parse python311 (py ''# c'' @ [NL, NL] @ py ''1'') DEFAULT_FIELDS = Inr groups \<and>
      length groups = 2 \<and> groups ! 0 = [])"
proof -
  have b1: "[py ''# a'', py ''# b''] =
      filter (\<lambda>sentence. sentence \<noteq> []) (py_split (py ''# a'' @ [NL, NL] @ py ''# b'') [NL, NL])"
    by code_simp
  have all: "\<forall>b\<in>set [py ''# a'', py ''# b'']. \<forall>line\<in>set (py_split b [NL]).
      line = [] \<or> startswith (py_strip python311 line) (py ''#'')"
    by code_simp
  from parse_comment_only_block[OF b1, of python311 DEFAULT_FIELDS] all
  have 1: "parse python311 (py ''# a'' @ [NL, NL] @ py ''# b'') DEFAULT_FIELDS = Inr [[], []]"
    by (simp add: numeral_2_eq_2)
  have b2: "[py ''# c'', py ''1''] =
      filter (\<lambda>sentence. sentence \<noteq> []) (py_split (py ''# c'' @ [NL, NL] @ py ''1'') [NL, NL])"
    by code_simp
  have p: "parse python311 (py ''# c'' @ [NL, NL] @ py ''1'') DEFAULT_FIELDS
      = Inr [[], [[(py ''id'', VInt 1)]]]"
    by code_simp
  have first: "\<forall>line\<in>set (py_split ([py ''# c'', py ''1''] ! 0) [NL]).
      line = [] \<or> startswith (py_strip python311 line) (py ''#'')"
    by code_simp
  from parse_comment_only_block[OF b2, of python311 DEFAULT_FIELDS] p first
  have "length [[], [[(py ''id'', VInt 1)]]] = length [py ''# c'', py ''1''] \<and>
        [[], [[(py ''id'', VInt 1)]]] ! 0 = ([] :: ordered_dict list)"
    by fastforce
  with p have 2: "\<exists>groups. parse python311 (py ''# c'' @ [NL, NL] @ py ''1'') DEFAULT_FIELDS
      = Inr groups \<and> length groups = 2 \<and> groups ! 0 = []" by simp
  from 1 2 show ?thesis by blast
qed

text \<open>Claim C10 as stated fails for the empty block: four newlines between two token
  lines split into three blocks, the middle one empty. Its only line is empty, and it is
  left out of the result, which has two groups and no empty one. It also fails when
  "blank" is read as "only whitespace": a block that is one space is a line that is
  neither empty nor a comment, and it is parsed into a record.\<close>

theorem parse_comment_only_block_counterexample:
  "py_split (py ''1'' @ [NL, NL, NL, NL] @ py ''2'') [NL, NL] = [py ''1'', [], py ''2''] \<and>
   py_split [] [NL] = [[]] \<and>
   parse python311 (py ''1'' @ [NL, NL, NL, NL] @ py ''2'') DEFAULT_FIELDS =
     Inr [[[(py ''id'', VInt 1)]], [[(py ''id'', VInt 2)]]] \<and>
   parse python311 [SP] DEFAULT_FIELDS = Inr [[[(py ''id'', VNone)]]]"
  by code_simp

section \<open>Properties of the Matcher\<close>

subsection \<open>The body of the nested function match\<close>

lemma global_body_returns_False: "global_body env tok pat = Inr (Some b) \<Longrightarrow> b = False"
  by (auto simp: global_body_def ebind_def load_arg_def split: if_splits sum.splits)

lemma global_loop_returns_False: "global_loop env tok pats = Inr (Some b) \<Longrightarrow> b = False"
proof (induction pats)
  case Nil then show ?case by simp
next
  case (Cons pat pats)
  then show ?case
    by (auto split: sum.splits option.splits dest: global_body_returns_False)
qed

lemma global_loop_append:
  "global_loop env tok (xs @ ys) =
     (case global_loop env tok xs of
        Inl e \<Rightarrow> Inl e
      | Inr (Some b) \<Rightarrow> Inr (Some b)
      | Inr None \<Rightarrow> global_loop env tok ys)"
  by (induction xs) (auto split: sum.splits option.splits)

lemma global_loop_no_raise:
  "(\<forall>q\<in>set pats. \<forall>e. global_body env tok q \<noteq> Inl e) \<Longrightarrow> global_loop env tok pats \<noteq> Inl e"
  by (induction pats) (auto split: sum.splits option.splits)

lemma global_body_absent:
  "p = PyNone \<or> p = PyBool False \<Longrightarrow> global_body env tok p = Inr (Some False)"
  by (auto simp: global_body_def)

lemma attr_loop_nonempty:
  "attr_loop env tok (key # keys) = Inl (if length key = 2 then NameError else ValueError)"
proof (cases "unpack_key key")
  case (Inl e)
  then have "e = ValueError \<and> length key \<noteq> 2"
    by (cases key rule: unpack_key.cases) auto
  with Inl show ?thesis by simp
next
  case (Inr ap)
  then obtain a b where "key = [a, b]" "ap = (PyStr [a], PyStr [b])"
    by (cases key rule: unpack_key.cases) auto
  then show ?thesis by (simp add: attr_body_def load_arg_def)
qed


text \<open>With a single global pattern that is a list, the body of \<open>match\<close> returns the
  value of \<open>tok in pat\<close>, and raises what \<open>in\<close> raises.\<close>

lemma match_membership_pattern:
  "match env tok \<lparr>global_patterns = [PyList xs], attr_patterns = []\<rparr> token =
     py_contains env (PyList xs) tok"
  by (cases "py_contains env (PyList xs) tok") (simp_all add: match_def global_body_def)

text \<open>With the single global pattern \<open>True\<close>, the body of \<open>match\<close> returns the value
  of \<open>tok == True\<close>: the pattern reaches the \<open>else\<close> branch of the second \<open>if\<close>
  statement.\<close>

lemma match_true_pattern:
  "match env tok \<lparr>global_patterns = [PyBool True], attr_patterns = []\<rparr> token =
     ebind (py_noteq env tok (PyBool True)) (\<lambda>ne. Inr (\<not> ne))"
  by (simp add: match_def global_body_def ebind_def split: sum.splits)

text \<open>When the global patterns contain \<open>None\<close> or \<open>False\<close>, the body of \<open>match\<close>
  never returns \<open>True\<close>, and it returns \<open>False\<close> when no pattern before that \<open>None\<close>
  or \<open>False\<close> raises: the patterns are evaluated in order.\<close>

lemma match_absent_pattern:
  assumes "global_patterns self = pre @ p # post" and "p = PyNone \<or> p = PyBool False"
  shows "match env tok self token \<noteq> Inr True \<and>
         ((\<forall>q\<in>set pre. \<forall>e. global_body env tok q \<noteq> Inl e) \<longrightarrow>
            match env tok self token = Inr False)"
proof -
  have p: "global_body env tok p = Inr (Some False)" by (rule global_body_absent) (rule assms(2))
  have loop: "global_loop env tok (global_patterns self) =
     (case global_loop env tok pre of
        Inl e \<Rightarrow> Inl e | Inr (Some b) \<Rightarrow> Inr (Some b) | Inr None \<Rightarrow> Inr (Some False))"
    by (simp add: assms(1) global_loop_append p split: sum.splits option.splits)
  have 1: "match env tok self token \<noteq> Inr True"
    using loop global_loop_returns_False[of env tok pre]
    by (auto simp: match_def split: sum.splits option.splits)
  have 2: "match env tok self token = Inr False"
    if "\<forall>q\<in>set pre. \<forall>e. global_body env tok q \<noteq> Inl e"
    using loop global_loop_returns_False[of env tok pre] global_loop_no_raise[OF that]
    by (auto simp: match_def split: sum.splits option.splits)
  from 1 2 show ?thesis by blast
qed

text \<open>With every global pattern satisfied and at least one attribute pattern, the body
  of \<open>match\<close> raises while it unpacks or tests the first key: ValueError unless the key
  has two characters, NameError if it has. \<open>tok.__getattr__(attr)\<close> is never evaluated.\<close>

lemma match_attr_patterns_raise:
  assumes "global_loop env tok (global_patterns self) = Inr None"
    and "attr_patterns self = (key, pat) # rest"
  shows "match env tok self token = Inl (if length key = 2 then NameError else ValueError)"
  using assms by (simp add: match_def attr_loop_nonempty del: attr_loop.simps)

subsection \<open>The call of Matcher\<close>

text \<open>Claim C2 says that matching against the single global pattern \<open>True\<close> returns
  true. The call \<open>Matcher(tok, True)\<close> returns \<open>None\<close> for every token: it is not
  \<open>True\<close>, and as a condition it counts as false.\<close>

theorem Matcher_true_pattern:
  "Matcher tok [PyBool True] [] = Inr PyNone \<and>
   Matcher tok [PyBool True] [] \<noteq> Inr (PyBool True) \<and> \<not> truthy PyNone"
  by (simp add: Matcher_def)

text \<open>Claim C3 says that matching returns false when a global pattern is \<open>False\<close> or
  \<open>None\<close>. The calls \<open>Matcher(tok, ..., False, ...)\<close> and \<open>Matcher(tok, ..., None, ...)\<close>
  return \<open>None\<close>, not the boolean \<open>False\<close>, the same value that the call without any
  pattern returns.\<close>

theorem Matcher_absent_pattern:
  "Matcher tok (pre @ PyBool False # post) kwargs = Inr PyNone \<and>
   Matcher tok (pre @ PyNone # post) kwargs = Inr PyNone \<and>
   Matcher tok (pre @ PyBool False # post) kwargs \<noteq> Inr (PyBool False) \<and>
   Matcher tok (pre @ PyBool False # post) kwargs = Matcher tok [] []"
  by (simp add: Matcher_def)

text \<open>Claim C4 says that matching fails with the attribute-lookup error when the token
  lacks a named attribute. The call \<open>Matcher(tok, pos="NOUN")\<close> returns \<open>None\<close> for
  every token, also one without the attribute \<open>pos\<close>: it raises nothing.\<close>

theorem Matcher_missing_attribute:
  "Matcher tok [] [(py ''pos'', PyStr (py ''NOUN''))] = Inr PyNone \<and>
   (\<forall>e. Matcher tok [] [(py ''pos'', PyStr (py ''NOUN''))] \<noteq> Inl e)"
  by (simp add: Matcher_def)

end
